theory Spec2Isabelle
  imports Main
begin

section \<open>Data model of yass.py\<close>

text \<open>
  A \<open>Var\<close> object carries a name and a mutable value, one of \<open>None\<close>, \<open>True\<close>,
  \<open>False\<close>. \<open>read_formula\<close> creates the variables of a formula as
  \<open>[Var(name + 1) for name in range(nvars)]\<close>, so the variable named \<open>k\<close> is the
  object at position \<open>k - 1\<close> of \<open>f.vars\<close>. The store of all variable values of a
  formula is therefore the list of their values in that order, and a literal, which
  holds a reference to one of these objects, is modelled by the name of its variable
  together with its sign.
\<close>

record Lit =
  var :: int
  sign :: bool

text \<open>\<open>class Clause\<close> has the single field \<open>lits\<close>; \<open>len(c)\<close> is the length of that list.\<close>

type_synonym Clause = "Lit list"

record Formula =
  vars :: "bool option list"
  clauses :: "Clause list"

text \<open>
  \<open>lit.var.value\<close>: the value of the variable the literal refers to. A name outside
  \<open>1..len(f.vars)\<close> stands for a \<open>Var\<close> that is not among the formula's variables;
  the searches only ever write to \<open>f.vars\<close>, so such an object keeps the value \<open>None\<close>
  it is constructed with.
\<close>

definition Var_value :: "bool option list \<Rightarrow> int \<Rightarrow> bool option" where
  "Var_value vs n = (if 1 \<le> n \<and> n \<le> int (length vs) then vs ! nat (n - 1) else None)"

text \<open>The invariant \<open>read_formula\<close> establishes: every literal names a variable of the formula.\<close>

definition wf_Formula :: "Formula \<Rightarrow> bool" where
  "wf_Formula f =
     list_all (list_all (\<lambda>l. 1 \<le> var l \<and> var l \<le> int (length (vars f)))) (clauses f)"

section \<open>Predicates of \<open>Lit\<close>, \<open>Clause\<close> and \<open>Formula\<close>\<close>

definition Lit_sat :: "bool option list \<Rightarrow> Lit \<Rightarrow> bool" where
  "Lit_sat vs l = (Var_value vs (var l) = Some (sign l))"

definition Lit_unsat :: "bool option list \<Rightarrow> Lit \<Rightarrow> bool" where
  "Lit_unsat vs l = (if Var_value vs (var l) = None \<or> Lit_sat vs l then False else True)"

fun Clause_sat :: "bool option list \<Rightarrow> Clause \<Rightarrow> bool" where
  "Clause_sat vs [] = False"
| "Clause_sat vs (l # ls) = (if Lit_sat vs l then True else Clause_sat vs ls)"

fun Clause_unsat :: "bool option list \<Rightarrow> Clause \<Rightarrow> bool" where
  "Clause_unsat vs [] = True"
| "Clause_unsat vs (l # ls) = (if \<not> Lit_unsat vs l then False else Clause_unsat vs ls)"

text \<open>The loops of \<open>Formula.sat\<close> and \<open>Formula.unsat\<close> over \<open>self.clauses\<close>.\<close>

fun sat_loop :: "bool option list \<Rightarrow> Clause list \<Rightarrow> bool" where
  "sat_loop vs [] = True"
| "sat_loop vs (c # cs) = (if \<not> Clause_sat vs c then False else sat_loop vs cs)"

fun unsat_loop :: "bool option list \<Rightarrow> Clause list \<Rightarrow> bool" where
  "unsat_loop vs [] = False"
| "unsat_loop vs (c # cs) = (if Clause_unsat vs c then True else unsat_loop vs cs)"

definition Formula_sat :: "Formula \<Rightarrow> bool" where
  "Formula_sat f = sat_loop (vars f) (clauses f)"

definition Formula_unsat :: "Formula \<Rightarrow> bool" where
  "Formula_unsat f = unsat_loop (vars f) (clauses f)"

section \<open>Backtracking search\<close>

text \<open>
  \<open>for v in f.vars: if v.value == None: ...; return None\<close>: the body runs for the first
  variable whose value is \<open>None\<close> and returns there; \<open>first_unassigned\<close> is its position.
\<close>

fun first_unassigned :: "bool option list \<Rightarrow> nat option" where
  "first_unassigned [] = None"
| "first_unassigned (v # vs) =
     (if v = None then Some 0 else map_option Suc (first_unassigned vs))"

definition unassigned :: "Formula \<Rightarrow> nat" where
  "unassigned f = length (filter (\<lambda>v. v = None) (vars f))"

text \<open>
  \<open>backtrack\<close> mutates the variables in place and returns \<open>f.vars\<close> or \<open>None\<close>; the
  model returns that result together with the formula as the call leaves it. The two
  rounds of \<open>for value in [True, False]\<close> are written out one after the other, the
  second starting from the state the first one left.
\<close>

function (domintros) backtrack :: "Formula \<Rightarrow> bool option list option \<times> Formula" where
  "backtrack f =
     (case first_unassigned (vars f) of
        Some i \<Rightarrow>
          (let f1 = f\<lparr>vars := (vars f)[i := Some True]\<rparr>;
               (r1, f2) = (if \<not> Formula_unsat f1 then backtrack f1 else (None, f1))
           in if r1 \<noteq> None then (r1, f2)
              else
                let f3 = f2\<lparr>vars := (vars f2)[i := Some False]\<rparr>;
                    (r2, f4) = (if \<not> Formula_unsat f3 then backtrack f3 else (None, f3))
                in if r2 \<noteq> None then (r2, f4)
                   else (None, f4\<lparr>vars := (vars f4)[i := None]\<rparr>))
      | None \<Rightarrow> if Formula_sat f then (Some (vars f), f) else (None, f))"
  by pat_completeness auto

lemma first_unassigned_Some:
  "first_unassigned vs = Some i \<Longrightarrow> i < length vs \<and> vs ! i = None"
  by (induction vs arbitrary: i) (auto split: if_splits)

lemma first_unassigned_None:
  "first_unassigned vs = None \<longleftrightarrow> None \<notin> set vs"
  by (induction vs) auto

lemma filter_None_update:
  "i < length vs \<Longrightarrow> vs ! i = None \<Longrightarrow>
     length (filter (\<lambda>v. v = None) (vs[i := Some b])) < length (filter (\<lambda>v. v = None) vs)"
proof (induction vs arbitrary: i)
  case Nil
  then show ?case by simp
next
  case (Cons v vs)
  then show ?case by (cases i) auto
qed

text \<open>Giving a value to the chosen variable leaves strictly fewer unassigned variables.\<close>

lemma unassigned_assign:
  "first_unassigned (vars f) = Some i \<Longrightarrow>
     unassigned (f\<lparr>vars := (vars f)[i := Some b]\<rparr>) < unassigned f"
  by (simp add: unassigned_def filter_None_update first_unassigned_Some)

text \<open>
  A failing call hands the formula back as it received it. The second round of the
  value loop starts from the state the first round left, so termination rests on this.
\<close>

lemma backtrack_restore_dom:
  assumes "backtrack_dom f" and "fst (backtrack f) = None"
  shows "snd (backtrack f) = f"
  using assms
proof (induction f rule: backtrack.pinduct)
  case (1 f)
  show ?case
  proof (cases "first_unassigned (vars f)")
    case None
    with 1(1,4) show ?thesis
      by (simp add: backtrack.psimps split: if_splits)
  next
    case (Some i)
    define f1 where "f1 = f\<lparr>vars := (vars f)[i := Some True]\<rparr>"
    define p1 where "p1 = (if \<not> Formula_unsat f1 then backtrack f1 else (None, f1))"
    define f3 where "f3 = (snd p1)\<lparr>vars := (vars (snd p1))[i := Some False]\<rparr>"
    define p2 where "p2 = (if \<not> Formula_unsat f3 then backtrack f3 else (None, f3))"
    have unf: "backtrack f =
        (if fst p1 \<noteq> None then p1
         else if fst p2 \<noteq> None then p2
         else (None, (snd p2)\<lparr>vars := (vars (snd p2))[i := None]\<rparr>))"
      using 1(1) Some
      by (simp add: backtrack.psimps f1_def p1_def f3_def p2_def Let_def split: prod.splits)
    from 1(4) unf have r1: "fst p1 = None" by (auto split: if_splits)
    from 1(4) unf r1 have r2: "fst p2 = None" by (auto split: if_splits)
    have s1: "snd p1 = f1"
    proof (cases "Formula_unsat f1")
      case True
      then show ?thesis by (simp add: p1_def)
    next
      case False
      with 1(2)[OF Some f1_def] r1 show ?thesis by (simp add: p1_def)
    qed
    have s2: "snd p2 = f3"
    proof (cases "Formula_unsat f3")
      case True
      then show ?thesis by (simp add: p2_def)
    next
      case False
      have "(fst p1, snd p1) = p1" by simp
      from 1(3)[OF Some f1_def p1_def this _ f3_def False] r1 r2 False
      show ?thesis by (simp add: p2_def)
    qed
    from first_unassigned_Some[OF Some] have "(vars f)[i := None] = vars f"
      by (metis list_update_id)
    with unf r1 r2 s1 s2 show ?thesis
      by (simp add: f3_def f1_def)
  qed
qed

termination backtrack
proof (relation "measure unassigned")
  show "wf (measure unassigned)" by simp
next
  fix f :: Formula and i f1
  assume "first_unassigned (vars f) = Some i" "f1 = f\<lparr>vars := (vars f)[i := Some True]\<rparr>"
  then show "(f1, f) \<in> measure unassigned"
    by (simp add: unassigned_assign)
next
  fix f :: Formula and i f1 p1 r1 f2 f3
  assume a: "first_unassigned (vars f) = Some i"
    "f1 = f\<lparr>vars := (vars f)[i := Some True]\<rparr>"
    "p1 = (if \<not> Formula_unsat f1 then backtrack f1 else (None, f1))"
    "(r1, f2) = p1" "\<not> r1 \<noteq> None"
    "f3 = f2\<lparr>vars := (vars f2)[i := Some False]\<rparr>"
    and d: "\<not> Formula_unsat f1 \<Longrightarrow> backtrack_dom f1"
  have "f2 = f1"
  proof (cases "Formula_unsat f1")
    case True
    with a show ?thesis by auto
  next
    case False
    with a have "fst (backtrack f1) = None" "snd (backtrack f1) = f2"
      by (auto simp: fst_conv snd_conv dest: sym)
    with backtrack_restore_dom[OF d[OF False]] show ?thesis by simp
  qed
  with a have "f3 = f\<lparr>vars := (vars f)[i := Some False]\<rparr>" by simp
  with unassigned_assign[OF a(1), of False] show "(f3, f) \<in> measure unassigned"
    by simp
qed

declare backtrack.simps [simp del]

section \<open>Unit propagation and \<open>dpll\<close>\<close>

datatype error = IndexError

text \<open>
  \<open>f.vars[k]\<close> for a Python list of length \<open>n\<close>: a negative index counts from the end,
  and an index outside the list raises \<open>IndexError\<close>.
\<close>

definition py_index :: "nat \<Rightarrow> int \<Rightarrow> error + nat" where
  "py_index n k =
     (if 0 \<le> k \<and> k < int n then Inr (nat k)
      else if k < 0 \<and> - int n \<le> k then Inr (nat (int n + k))
      else Inl IndexError)"

text \<open>
  \<open>if curr_val and ...\<close>: the truth value Python gives to the value of a variable.
  \<open>None\<close> and \<open>False\<close> are both falsy.
\<close>

fun truthy :: "bool option \<Rightarrow> bool" where
  "truthy None = False"
| "truthy (Some b) = b"

text \<open>
  The scan \<open>for c in f.clauses\<close> of \<open>dpll\<close>, carrying the variable values and the list
  \<open>unit_clauses\<close>. It ends by raising, by the early \<open>return None\<close>, or by running through.
\<close>

datatype scan = Conflict "bool option list" | Completed "bool option list" "Clause list"

fun scan_units :: "Clause list \<Rightarrow> bool option list \<Rightarrow> Clause list \<Rightarrow> error + scan" where
  "scan_units [] vs unit_clauses = Inr (Completed vs unit_clauses)"
| "scan_units (c # cs) vs unit_clauses =
     (if length c = 1 then
        (let lit = c ! 0 in
         case py_index (length vs) (var lit - 1) of
           Inl e \<Rightarrow> Inl e
         | Inr k \<Rightarrow>
             (let curr_val = vs ! k in
              if truthy curr_val \<and> curr_val \<noteq> Some (sign lit) then Inr (Conflict vs)
              else scan_units cs (vs[k := Some (sign lit)]) (unit_clauses @ [c])))
      else scan_units cs vs unit_clauses)"

text \<open>The variable values the scan ends with, on either way out.\<close>

fun scan_vars :: "scan \<Rightarrow> bool option list" where
  "scan_vars (Conflict vs) = vs"
| "scan_vars (Completed vs unit_clauses) = vs"

text \<open>
  The state of \<open>dpll\<close> after its pre-pass: either it has returned \<open>None\<close> from inside
  the scan, or it has replaced \<open>f.clauses\<close> by
  \<open>[x for x in f.clauses if x not in unit_clauses]\<close> and is about to call \<open>backtrack\<close>.
  \<open>Clause\<close> defines no \<open>__eq__\<close>, so \<open>not in\<close> compares objects by identity; every
  clause with the same literals as a collected unit clause has length 1 and is collected
  itself, so comparing by value removes the same clauses.
\<close>

datatype prepass = Failed Formula | Delegate Formula

definition unit_propagation :: "Formula \<Rightarrow> error + prepass" where
  "unit_propagation f =
     (case scan_units (clauses f) (vars f) [] of
        Inl e \<Rightarrow> Inl e
      | Inr (Conflict vs) \<Rightarrow> Inr (Failed (f\<lparr>vars := vs\<rparr>))
      | Inr (Completed vs unit_clauses) \<Rightarrow>
          Inr (Delegate (f\<lparr>vars := vs,
                           clauses := filter (\<lambda>x. x \<notin> set unit_clauses) (clauses f)\<rparr>)))"

definition dpll :: "Formula \<Rightarrow> error + (bool option list option \<times> Formula)" where
  "dpll f =
     (case unit_propagation f of
        Inl e \<Rightarrow> Inl e
      | Inr (Failed f') \<Rightarrow> Inr (None, f')
      | Inr (Delegate f') \<Rightarrow> Inr (backtrack f'))"

section \<open>Counting the work of \<open>backtrack\<close>\<close>

text \<open>
  A complete assignment is a state in which every variable holds a value. \<open>complete\<close>
  is 1 on such a state and 0 otherwise.
\<close>

definition complete :: "Formula \<Rightarrow> nat" where
  "complete f = (if first_unassigned (vars f) = None then 1 else 0)"

text \<open>
  \<open>backtrack\<close> once more, with a depth bound and a counter added and nothing else
  changed. The first argument bounds the number of calls of \<open>backtrack\<close> that are
  active at once, the outermost call included (\<open>None\<close> when a call would go beyond
  it). The last component of the result counts the complete assignments the search
  forms: those that \<open>v.value = value\<close> completes and \<open>f.unsat()\<close> rejects on the spot,
  and those that reach the test \<open>f.sat()\<close> of a call that finds no unassigned variable.
\<close>

fun backtrack_fuel ::
  "nat \<Rightarrow> Formula \<Rightarrow> ((bool option list option \<times> Formula) \<times> nat) option" where
  "backtrack_fuel 0 f = None"
| "backtrack_fuel (Suc d) f =
     (case first_unassigned (vars f) of
        Some i \<Rightarrow>
          (let f1 = f\<lparr>vars := (vars f)[i := Some True]\<rparr> in
           case (if \<not> Formula_unsat f1 then backtrack_fuel d f1
                 else Some ((None, f1), complete f1)) of
             None \<Rightarrow> None
           | Some ((r1, f2), n1) \<Rightarrow>
               if r1 \<noteq> None then Some ((r1, f2), n1)
               else
                 let f3 = f2\<lparr>vars := (vars f2)[i := Some False]\<rparr> in
                 case (if \<not> Formula_unsat f3 then backtrack_fuel d f3
                       else Some ((None, f3), complete f3)) of
                   None \<Rightarrow> None
                 | Some ((r2, f4), n2) \<Rightarrow>
                     if r2 \<noteq> None then Some ((r2, f4), n1 + n2)
                     else Some ((None, f4\<lparr>vars := (vars f4)[i := None]\<rparr>), n1 + n2))
      | None \<Rightarrow> Some ((if Formula_sat f then (Some (vars f), f) else (None, f)), 1))"

text \<open>
  One round of the value loop of \<open>backtrack\<close>, started from \<open>f\<close>: the variable at
  position \<open>i\<close> gets the value \<open>b\<close> and, unless a clause is falsified, the search
  recurses. Used to state what a call of \<open>backtrack\<close> amounts to.
\<close>

definition attempt :: "Formula \<Rightarrow> nat \<Rightarrow> bool \<Rightarrow> bool option list option \<times> Formula" where
  "attempt f i b =
     (let g = f\<lparr>vars := (vars f)[i := Some b]\<rparr>
      in if \<not> Formula_unsat g then backtrack g else (None, g))"

section \<open>How a call of \<open>backtrack\<close> unfolds\<close>

lemma backtrack_all_dom: "backtrack_dom f"
proof (induction f rule: backtrack.induct)
  case (1 f)
  show ?case
    by (rule backtrack.domintros) (auto intro: 1 simp del: not_None_eq)
qed

lemma backtrack_restore:
  "fst (backtrack f) = None \<Longrightarrow> snd (backtrack f) = f"
  by (rule backtrack_restore_dom[OF backtrack_all_dom])

lemma attempt_restore:
  "fst (attempt f i b) = None \<Longrightarrow> snd (attempt f i b) = f\<lparr>vars := (vars f)[i := Some b]\<rparr>"
  by (simp add: attempt_def Let_def backtrack_restore split: if_splits)

lemma backtrack_bottom:
  "first_unassigned (vars f) = None \<Longrightarrow>
     backtrack f = (if Formula_sat f then (Some (vars f), f) else (None, f))"
  by (subst backtrack.simps) simp

lemma backtrack_branch:
  assumes "first_unassigned (vars f) = Some i"
  shows "backtrack f =
     (if fst (attempt f i True) \<noteq> None then attempt f i True
      else if fst (attempt f i False) \<noteq> None then attempt f i False
      else (None, f))"
proof -
  define p1 where "p1 = attempt f i True"
  define f3 where "f3 = (snd p1)\<lparr>vars := (vars (snd p1))[i := Some False]\<rparr>"
  define p2 where "p2 = (if \<not> Formula_unsat f3 then backtrack f3 else (None, f3))"
  have unf: "backtrack f =
      (if fst p1 \<noteq> None then p1
       else if fst p2 \<noteq> None then p2
       else (None, (snd p2)\<lparr>vars := (vars (snd p2))[i := None]\<rparr>))"
    apply (subst backtrack.simps)
    using assms
    apply (simp add: attempt_def p1_def f3_def p2_def Let_def split: prod.splits)
    done
  show ?thesis
  proof (cases "fst p1 = None")
    case False
    with unf show ?thesis by (simp add: p1_def)
  next
    case True
    then have "snd p1 = f\<lparr>vars := (vars f)[i := Some True]\<rparr>"
      unfolding p1_def by (rule attempt_restore)
    then have f3: "f3 = f\<lparr>vars := (vars f)[i := Some False]\<rparr>"
      by (simp add: f3_def)
    then have p2: "p2 = attempt f i False"
      by (simp add: p2_def attempt_def Let_def)
    show ?thesis
    proof (cases "fst p2 = None")
      case False
      with unf True p2 show ?thesis by (simp add: p1_def)
    next
      case n2: True
      then have "snd p2 = f\<lparr>vars := (vars f)[i := Some False]\<rparr>"
        unfolding p2 by (rule attempt_restore)
      moreover from first_unassigned_Some[OF assms] have "(vars f)[i := None] = vars f"
        by (metis list_update_id)
      ultimately show ?thesis
        using unf True n2 p2 by (simp add: p1_def)
    qed
  qed
qed

lemma backtrack_measure_induct [case_names step]:
  fixes P :: "Formula \<Rightarrow> bool"
  assumes "\<And>f. (\<And>i b. first_unassigned (vars f) = Some i \<Longrightarrow>
                      P (f\<lparr>vars := (vars f)[i := Some b]\<rparr>)) \<Longrightarrow> P f"
  shows "P f"
proof (induction "unassigned f" arbitrary: f rule: less_induct)
  case less
  show ?case
    by (rule assms) (simp add: less unassigned_assign)
qed

lemma attempt_Some:
  "attempt f i b = (Some a, f') \<Longrightarrow>
     backtrack (f\<lparr>vars := (vars f)[i := Some b]\<rparr>) = (Some a, f')"
  by (simp add: attempt_def Let_def split: if_splits)

lemma backtrack_Some_cases:
  assumes "backtrack f = (Some a, f')"
  obtains (bottom) "first_unassigned (vars f) = None" "Formula_sat f" "a = vars f" "f' = f"
  | (branch) i b where "first_unassigned (vars f) = Some i"
      "backtrack (f\<lparr>vars := (vars f)[i := Some b]\<rparr>) = (Some a, f')"
proof (cases "first_unassigned (vars f)")
  case None
  with assms have "Formula_sat f \<and> a = vars f \<and> f' = f"
    by (auto simp: backtrack_bottom split: if_splits)
  with None show ?thesis by (intro bottom) auto
next
  case (Some i)
  from assms backtrack_branch[OF Some]
  have "attempt f i True = (Some a, f') \<or> attempt f i False = (Some a, f')"
    by (auto split: if_splits)
  then show ?thesis
    using Some by (auto intro: branch dest: attempt_Some)
qed

lemma Clause_sat_iff: "Clause_sat vs c \<longleftrightarrow> (\<exists>l\<in>set c. Lit_sat vs l)"
  by (induction c) auto

lemma sat_loop_iff: "sat_loop vs cs \<longleftrightarrow> (\<forall>c\<in>set cs. Clause_sat vs c)"
  by (induction cs) auto

lemma Clause_unsat_iff: "Clause_unsat vs c \<longleftrightarrow> (\<forall>l\<in>set c. Lit_unsat vs l)"
  by (induction c) auto

lemma unsat_loop_iff: "unsat_loop vs cs \<longleftrightarrow> (\<exists>c\<in>set cs. Clause_unsat vs c)"
  by (induction cs) auto

lemma backtrack_Some_state:
  "backtrack f = (Some a, f') \<Longrightarrow>
     vars f' = a \<and> clauses f' = clauses f \<and> length a = length (vars f) \<and>
     None \<notin> set a \<and> sat_loop a (clauses f)"
proof (induction f arbitrary: a f' rule: backtrack_measure_induct)
  case (step f)
  from step.prems show ?case
  proof (cases rule: backtrack_Some_cases)
    case bottom
    then show ?thesis
      by (simp add: first_unassigned_None Formula_sat_def)
  next
    case (branch i b)
    from step.IH[OF branch] show ?thesis by simp
  qed
qed

lemma attempt_pruned:
  "Formula_unsat (f\<lparr>vars := (vars f)[i := Some b]\<rparr>) \<Longrightarrow>
     attempt f i b = (None, f\<lparr>vars := (vars f)[i := Some b]\<rparr>)"
  by (simp add: attempt_def Let_def)

lemma attempt_recurse:
  "\<not> Formula_unsat (f\<lparr>vars := (vars f)[i := Some b]\<rparr>) \<Longrightarrow>
     attempt f i b = backtrack (f\<lparr>vars := (vars f)[i := Some b]\<rparr>)"
  by (simp add: attempt_def Let_def)

lemma first_unassigned_replicate:
  "first_unassigned (replicate k (Some True) @ None # xs) = Some k"
  by (induction k) auto

lemma first_unassigned_all_True:
  "first_unassigned (replicate k (Some True)) = None"
  by (simp add: first_unassigned_None)

lemma no_clauses_run:
  "clauses f = [] \<Longrightarrow> vars f = replicate k (Some True) @ replicate m None \<Longrightarrow>
     backtrack f = (Some (replicate (k + m) (Some True)),
                    f\<lparr>vars := replicate (k + m) (Some True)\<rparr>)"
proof (induction m arbitrary: k f)
  case 0
  then have "first_unassigned (vars f) = None" "Formula_sat f"
    by (simp_all add: first_unassigned_all_True Formula_sat_def)
  with 0 show ?case
    by (simp add: backtrack_bottom)
next
  case (Suc m)
  define g where "g = f\<lparr>vars := (vars f)[k := Some True]\<rparr>"
  from Suc.prems have fu: "first_unassigned (vars f) = Some k"
    by (simp add: first_unassigned_replicate)
  from Suc.prems have g: "clauses g = []"
      "vars g = replicate (Suc k) (Some True) @ replicate m None"
    by (simp_all add: g_def list_update_append replicate_append_same)
  from g(1) have "\<not> Formula_unsat g"
    by (simp add: Formula_unsat_def)
  then have "attempt f k True = backtrack g"
    unfolding g_def by (rule attempt_recurse)
  also from Suc.IH[OF g] have "\<dots> = (Some (replicate (Suc k + m) (Some True)),
      g\<lparr>vars := replicate (Suc k + m) (Some True)\<rparr>)" .
  finally have "attempt f k True = (Some (replicate (k + Suc m) (Some True)),
      f\<lparr>vars := replicate (k + Suc m) (Some True)\<rparr>)"
    by (simp add: g_def)
  with fu show ?case
    by (simp add: backtrack_branch)
qed

lemma unassigned_le_length: "unassigned f \<le> length (vars f)"
  by (simp add: unassigned_def)

lemma backtrack_fuel_enough:
  "unassigned f < d \<Longrightarrow>
     \<exists>n. backtrack_fuel d f = Some (backtrack f, n) \<and> n \<le> 2 ^ unassigned f"
proof (induction f arbitrary: d rule: backtrack_measure_induct)
  case (step f)
  from step.prems obtain d' where d: "d = Suc d'" by (cases d) auto
  show ?case
  proof (cases "first_unassigned (vars f)")
    case None
    then show ?thesis by (simp add: d backtrack_bottom)
  next
    case (Some i)
    let ?g = "\<lambda>b. f\<lparr>vars := (vars f)[i := Some b]\<rparr>"
    let ?a = "\<lambda>b. if \<not> Formula_unsat (?g b) then backtrack_fuel d' (?g b)
                   else Some ((None, ?g b), complete (?g b))"
    have ex: "\<exists>n. ?a b = Some (attempt f i b, n) \<and> 2 * n \<le> 2 ^ unassigned f" for b
    proof (cases "Formula_unsat (?g b)")
      case True
      from unassigned_assign[OF Some, of b] have "(2::nat) ^ 1 \<le> 2 ^ unassigned f"
        by (intro power_increasing) simp_all
      moreover have "complete (?g b) \<le> 1"
        by (simp add: complete_def)
      ultimately have "2 * complete (?g b) \<le> 2 ^ unassigned f" by simp
      with True show ?thesis by (simp add: attempt_pruned)
    next
      case False
      from unassigned_assign[OF Some, of b] have u: "unassigned (?g b) < unassigned f" .
      with step.prems d have "unassigned (?g b) < d'" by simp
      from step.IH[OF Some this]
      obtain n where n: "backtrack_fuel d' (?g b) = Some (backtrack (?g b), n)"
          "n \<le> 2 ^ unassigned (?g b)"
        by auto
      from u have "(2::nat) ^ Suc (unassigned (?g b)) \<le> 2 ^ unassigned f"
        by (intro power_increasing) simp_all
      with n(2) have "2 * n \<le> 2 ^ unassigned f" by simp
      with n(1) False show ?thesis
        by (simp add: attempt_recurse)
    qed
    obtain r1 f2 where p1: "attempt f i True = (r1, f2)" by fastforce
    obtain r2 f4 where p2: "attempt f i False = (r2, f4)" by fastforce
    from ex[of True] p1 obtain n1 where n1: "?a True = Some ((r1, f2), n1)"
        "2 * n1 \<le> 2 ^ unassigned f" by auto
    from ex[of False] p2 obtain n2 where n2: "?a False = Some ((r2, f4), n2)"
        "2 * n2 \<le> 2 ^ unassigned f" by auto
    from n1(2) n2(2) have sum: "n1 \<le> 2 ^ unassigned f" "n1 + n2 \<le> 2 ^ unassigned f"
      by simp_all
    have idle: "(vars f)[i := None] = vars f"
      using first_unassigned_Some[OF Some] by (metis list_update_id)
    show ?thesis
    proof (cases "r1 = None")
      case False
      have "backtrack_fuel d f = Some ((r1, f2), n1)"
        unfolding d backtrack_fuel.simps Let_def using False
        by (simp only: Some option.case n1(1) prod.case if_True not_False_eq_True)
      with False sum(1) Some p1 show ?thesis
        by (simp add: backtrack_branch)
    next
      case True
      from attempt_restore[of f i True] True p1 have s1: "f2 = ?g True"
        by simp
      then have g2: "f2\<lparr>vars := (vars f2)[i := Some False]\<rparr> = ?g False"
        by simp
      have unf: "backtrack_fuel d f =
          (case ?a False of None \<Rightarrow> None
           | Some ((r2, f4), n2) \<Rightarrow>
               if r2 \<noteq> None then Some ((r2, f4), n1 + n2)
               else Some ((None, f4\<lparr>vars := (vars f4)[i := None]\<rparr>), n1 + n2))"
        unfolding d backtrack_fuel.simps Let_def using True
        by (simp only: Some option.case n1(1) prod.case g2 if_False not_not not_True_eq_False refl)
      show ?thesis
      proof (cases "r2 = None")
        case False
        have "backtrack_fuel d f = Some ((r2, f4), n1 + n2)"
          unfolding unf using False
          by (simp only: n2(1) option.case prod.case if_True not_False_eq_True)
        with True False sum(2) Some p1 p2 show ?thesis
          by (simp add: backtrack_branch)
      next
        case n: True
        from attempt_restore[of f i False] n p2 have s2: "f4 = ?g False"
          by simp
        have "backtrack_fuel d f = Some ((None, f), n1 + n2)"
          unfolding unf using n idle
          by (simp add: n2(1) s2)
        with True n sum(2) Some p1 p2 show ?thesis
          by (simp add: backtrack_branch)
      qed
    qed
  qed
qed

section \<open>What the pre-pass of \<open>dpll\<close> changes\<close>

lemma py_index_bound: "py_index n k = Inr j \<Longrightarrow> j < n"
  by (auto simp: py_index_def split: if_splits)

lemma py_index_name:
  "1 \<le> v \<Longrightarrow> v \<le> int n \<Longrightarrow> py_index n (v - 1) = Inr (nat (v - 1))"
  by (simp add: py_index_def)

lemma scan_units_frame:
  "scan_units cs vs us = Inr r \<Longrightarrow>
     length (scan_vars r) = length vs \<and>
     (\<forall>j. scan_vars r ! j \<noteq> vs ! j \<longrightarrow>
        (\<exists>c\<in>set cs. length c = 1 \<and> py_index (length vs) (var (c ! 0) - 1) = Inr j))"
proof (induction cs arbitrary: vs us)
  case Nil
  then show ?case by auto
next
  case (Cons c cs)
  show ?case
  proof (cases "length c = 1")
    case False
    with Cons.prems have "scan_units cs vs us = Inr r" by simp
    from Cons.IH[OF this] show ?thesis by auto
  next
    case True
    with Cons.prems obtain k where k: "py_index (length vs) (var (c ! 0) - 1) = Inr k"
      by (cases "py_index (length vs) (var (c ! 0) - 1)") (auto simp: Let_def)
    show ?thesis
    proof (cases "truthy (vs ! k) \<and> vs ! k \<noteq> Some (sign (c ! 0))")
      case conflict: True
      with Cons.prems True k have "r = Conflict vs" by (auto simp: Let_def)
      then show ?thesis by simp
    next
      case False
      with Cons.prems True k
      have "scan_units cs (vs[k := Some (sign (c ! 0))]) (us @ [c]) = Inr r"
        by (auto simp: Let_def)
      from Cons.IH[OF this]
      have len: "length (scan_vars r) = length vs"
        and fr: "\<And>j. scan_vars r ! j \<noteq> vs[k := Some (sign (c ! 0))] ! j \<Longrightarrow>
          \<exists>c\<in>set cs. length c = 1 \<and> py_index (length vs) (var (c ! 0) - 1) = Inr j"
        by auto
      have "\<exists>c'\<in>set (c # cs). length c' = 1 \<and>
              py_index (length vs) (var (c' ! 0) - 1) = Inr j"
        if d: "scan_vars r ! j \<noteq> vs ! j" for j
      proof (cases "j = k")
        case True
        with k \<open>length c = 1\<close> show ?thesis by auto
      next
        case False
        with d have "scan_vars r ! j \<noteq> vs[k := Some (sign (c ! 0))] ! j" by simp
        from fr[OF this] show ?thesis by auto
      qed
      with len show ?thesis by blast
    qed
  qed
qed

lemma scan_units_collects:
  "scan_units cs vs us = Inr (Completed vs' us') \<Longrightarrow>
     us' = us @ filter (\<lambda>c. length c = 1) cs"
proof (induction cs arbitrary: vs us)
  case Nil
  then show ?case by simp
next
  case (Cons c cs)
  from Cons.prems show ?case
    by (auto simp: Let_def split: if_splits sum.splits dest!: Cons.IH)
qed

lemma unit_propagation_clauses:
  assumes "unit_propagation f = Inr (Delegate f')"
  shows "clauses f' = filter (\<lambda>c. length c \<noteq> 1) (clauses f)"
proof -
  from assms obtain vs us where s: "scan_units (clauses f) (vars f) [] = Inr (Completed vs us)"
    and f': "f' = f\<lparr>vars := vs, clauses := filter (\<lambda>x. x \<notin> set us) (clauses f)\<rparr>"
    by (auto simp: unit_propagation_def split: sum.splits scan.splits)
  from scan_units_collects[OF s] have "us = filter (\<lambda>c. length c = 1) (clauses f)" by simp
  then have "filter (\<lambda>x. x \<notin> set us) (clauses f) = filter (\<lambda>c. length c \<noteq> 1) (clauses f)"
    by (auto intro: filter_cong)
  with f' show ?thesis by simp
qed

lemma unit_propagation_vars:
  assumes "unit_propagation f = Inr p" and "p = Failed f' \<or> p = Delegate f'"
  shows "length (vars f') = length (vars f) \<and>
     (\<forall>j. vars f' ! j \<noteq> vars f ! j \<longrightarrow>
        (\<exists>c\<in>set (clauses f). length c = 1 \<and>
           py_index (length (vars f)) (var (c ! 0) - 1) = Inr j))"
proof -
  from assms obtain r where s: "scan_units (clauses f) (vars f) [] = Inr r"
    and v: "vars f' = scan_vars r"
    by (auto simp: unit_propagation_def split: sum.splits scan.splits)
  from scan_units_frame[OF s] v show ?thesis by simp
qed

lemma dpll_None:
  assumes "dpll f = Inr (None, f')"
  obtains p where "unit_propagation f = Inr p" "p = Failed f' \<or> p = Delegate f'"
proof (cases "unit_propagation f")
  case (Inl e)
  with assms show ?thesis by (simp add: dpll_def)
next
  case (Inr p)
  show ?thesis
  proof (cases p)
    case (Failed g)
    with Inr assms that show ?thesis by (simp add: dpll_def)
  next
    case (Delegate g)
    with Inr assms have b: "backtrack g = (None, f')" by (simp add: dpll_def)
    with backtrack_restore[of g] have "f' = g" by simp
    with Inr Delegate that show ?thesis by simp
  qed
qed

section \<open>Scenario 4\<close>

text \<open>
  C6: on the formula with two variables and the clauses \<open>1 2 0\<close> and \<open>-1 -2 0\<close>, all
  variables unassigned, \<open>backtrack\<close> returns the assignment variable 1 = true,
  variable 2 = false.
\<close>

theorem backtrack_scenario4:
  "backtrack \<lparr>vars = [None, None],
              clauses = [[\<lparr>var = 1, sign = True\<rparr>, \<lparr>var = 2, sign = True\<rparr>],
                         [\<lparr>var = 1, sign = False\<rparr>, \<lparr>var = 2, sign = False\<rparr>]]\<rparr>
   = (Some [Some True, Some False],
      \<lparr>vars = [Some True, Some False],
       clauses = [[\<lparr>var = 1, sign = True\<rparr>, \<lparr>var = 2, sign = True\<rparr>],
                  [\<lparr>var = 1, sign = False\<rparr>, \<lparr>var = 2, sign = False\<rparr>]]\<rparr>)"
  by code_simp

section \<open>Soundness of \<open>backtrack\<close>\<close>

text \<open>
  C3: when \<open>backtrack\<close> returns an assignment, it is the list of values the formula's
  variables hold on return, it gives a value to every variable of the formula, and every
  clause has a literal whose variable holds the literal's sign.
\<close>

theorem backtrack_sound:
  assumes "backtrack f = (Some a, f')"
  shows "vars f' = a \<and> length a = length (vars f) \<and> (\<forall>v\<in>set a. v \<noteq> None) \<and>
         (\<forall>c\<in>set (clauses f). \<exists>l\<in>set c. Var_value a (var l) = Some (sign l))"
proof -
  from backtrack_Some_state[OF assms]
  have st: "vars f' = a" "length a = length (vars f)" "None \<notin> set a" "sat_loop a (clauses f)"
    by simp_all
  from st(3) have "\<forall>v\<in>set a. v \<noteq> None" by metis
  moreover from st(4)
  have "\<forall>c\<in>set (clauses f). \<exists>l\<in>set c. Var_value a (var l) = Some (sign l)"
    by (simp add: sat_loop_iff Clause_sat_iff Lit_sat_def)
  ultimately show ?thesis using st(1,2) by simp
qed

theorem backtrack_sound_witness:
  "vars \<lparr>vars = [Some True, Some False],
         clauses = [[\<lparr>var = 1, sign = True\<rparr>, \<lparr>var = 2, sign = True\<rparr>],
                    [\<lparr>var = 1, sign = False\<rparr>, \<lparr>var = 2, sign = False\<rparr>]]\<rparr>
     = [Some True, Some False] \<and>
   length [Some True, Some False] = length [None :: bool option, None] \<and>
   (Var_value [Some True, Some False] 1 = Some True \<or>
    Var_value [Some True, Some False] 2 = Some True) \<and>
   (Var_value [Some True, Some False] 1 = Some False \<or>
    Var_value [Some True, Some False] 2 = Some False)"
proof -
  have run: "backtrack \<lparr>vars = [None, None],
              clauses = [[\<lparr>var = 1, sign = True\<rparr>, \<lparr>var = 2, sign = True\<rparr>],
                         [\<lparr>var = 1, sign = False\<rparr>, \<lparr>var = 2, sign = False\<rparr>]]\<rparr>
   = (Some [Some True, Some False],
      \<lparr>vars = [Some True, Some False],
       clauses = [[\<lparr>var = 1, sign = True\<rparr>, \<lparr>var = 2, sign = True\<rparr>],
                  [\<lparr>var = 1, sign = False\<rparr>, \<lparr>var = 2, sign = False\<rparr>]]\<rparr>)"
    by code_simp
  from backtrack_sound[OF run] show ?thesis by simp
qed

section \<open>The pruning predicate\<close>

text \<open>
  C5: \<open>Clause.unsat\<close> holds exactly when every literal of the clause is falsified, its
  variable assigned with a value other than the literal's sign; a clause with a literal
  whose variable is unassigned is never reported.
\<close>

theorem Clause_unsat_all_falsified:
  "(Clause_unsat vs c \<longleftrightarrow>
      (\<forall>l\<in>set c. \<exists>b. Var_value vs (var l) = Some b \<and> b \<noteq> sign l)) \<and>
   ((\<exists>l\<in>set c. Var_value vs (var l) = None) \<longrightarrow> \<not> Clause_unsat vs c)"
proof -
  have lit: "Lit_unsat vs l \<longleftrightarrow> (\<exists>b. Var_value vs (var l) = Some b \<and> b \<noteq> sign l)" for l
    by (cases "Var_value vs (var l)") (auto simp: Lit_unsat_def Lit_sat_def)
  show ?thesis
    unfolding Clause_unsat_iff lit by fastforce
qed

theorem Clause_unsat_all_falsified_witness:
  "Clause_unsat [Some True, Some False] [\<lparr>var = 1, sign = False\<rparr>, \<lparr>var = 2, sign = True\<rparr>] \<and>
   \<not> Clause_unsat [Some True, None] [\<lparr>var = 1, sign = False\<rparr>, \<lparr>var = 2, sign = True\<rparr>]"
  using Clause_unsat_all_falsified[of "[Some True, Some False]"
          "[\<lparr>var = 1, sign = False\<rparr>, \<lparr>var = 2, sign = True\<rparr>]"]
        Clause_unsat_all_falsified[of "[Some True, None]"
          "[\<lparr>var = 1, sign = False\<rparr>, \<lparr>var = 2, sign = True\<rparr>]"]
  by (simp add: Var_value_def)

section \<open>The empty clause\<close>

text \<open>
  C7: the clause without literals is falsified whatever the variables hold:
  \<open>Clause.unsat\<close> is true and \<open>Clause.sat\<close> is false on it, and \<open>backtrack\<close> returns
  \<open>None\<close> on every formula that contains it.
\<close>

theorem empty_clause_falsified:
  "Clause_unsat vs [] \<and> \<not> Clause_sat vs [] \<and>
   ([] \<in> set (clauses f) \<longrightarrow> fst (backtrack f) = None)"
proof -
  have "fst (backtrack f) = None" if e: "[] \<in> set (clauses f)"
  proof (cases "first_unassigned (vars f)")
    case None
    from e have "\<not> Formula_sat f"
      by (auto simp: Formula_sat_def sat_loop_iff intro!: bexI[where x = "[]"])
    with None show ?thesis by (simp add: backtrack_bottom)
  next
    case (Some i)
    from e have "Formula_unsat (f\<lparr>vars := (vars f)[i := Some b]\<rparr>)" for b
      by (auto simp: Formula_unsat_def unsat_loop_iff intro!: bexI[where x = "[]"])
    then have "fst (attempt f i b) = None" for b
      by (simp add: attempt_pruned)
    with Some show ?thesis by (simp add: backtrack_branch)
  qed
  then show ?thesis by simp
qed

theorem empty_clause_falsified_witness:
  "Clause_unsat [None] [] \<and> \<not> Clause_sat [None] [] \<and>
   fst (backtrack \<lparr>vars = [None], clauses = [[\<lparr>var = 1, sign = True\<rparr>], []]\<rparr>) = None"
  using empty_clause_falsified[of "[None]"
          "\<lparr>vars = [None], clauses = [[\<lparr>var = 1, sign = True\<rparr>], []]\<rparr>"]
  by simp

section \<open>The formula without clauses\<close>

text \<open>
  C10: on a formula with no clauses whose variables are all unassigned, \<open>backtrack\<close>
  succeeds and leaves every variable with the value true.
\<close>

theorem backtrack_no_clauses:
  assumes "clauses f = []" and "\<forall>v\<in>set (vars f). v = None"
  shows "backtrack f = (Some (replicate (length (vars f)) (Some True)),
                        f\<lparr>vars := replicate (length (vars f)) (Some True)\<rparr>)"
proof -
  from assms(2) have "vars f = replicate 0 (Some True) @ replicate (length (vars f)) None"
    by (simp add: replicate_length_same)
  from no_clauses_run[OF assms(1) this] show ?thesis by simp
qed

theorem backtrack_no_clauses_witness:
  "backtrack \<lparr>vars = [None, None, None], clauses = []\<rparr> =
     (Some [Some True, Some True, Some True],
      \<lparr>vars = [Some True, Some True, Some True], clauses = []\<rparr>)"
  using backtrack_no_clauses[of "\<lparr>vars = [None, None, None], clauses = []\<rparr>"]
  by (simp add: numeral_3_eq_3)

section \<open>Termination of \<open>backtrack\<close>\<close>

text \<open>
  C9, as amended: \<open>backtrack\<close> returns on every formula. Each recursive call is made on
  the formula with the first unassigned variable given a value, which has strictly fewer
  unassigned variables than the caller's. So at most \<open>n + 1\<close> calls of \<open>backtrack\<close> are
  active at once, the outermost call and one more for each of the \<open>n\<close> variables, and
  the search forms at most \<open>2 ^ n\<close> complete assignments.
\<close>

theorem backtrack_terminates:
  "(\<exists>n. backtrack_fuel (Suc (length (vars f))) f = Some (backtrack f, n) \<and>
        n \<le> 2 ^ length (vars f)) \<and>
   (\<forall>i b. first_unassigned (vars f) = Some i \<longrightarrow>
      unassigned (f\<lparr>vars := (vars f)[i := Some b]\<rparr>) < unassigned f)"
proof -
  have "unassigned f < Suc (length (vars f))"
    using unassigned_le_length[of f] by simp
  from backtrack_fuel_enough[OF this]
  obtain n where n: "backtrack_fuel (Suc (length (vars f))) f = Some (backtrack f, n)"
      "n \<le> 2 ^ unassigned f" by blast
  have "(2::nat) ^ unassigned f \<le> 2 ^ length (vars f)"
    by (intro power_increasing unassigned_le_length) simp
  with n(2) have "n \<le> 2 ^ length (vars f)" by (rule order_trans)
  with n(1) have "\<exists>n. backtrack_fuel (Suc (length (vars f))) f = Some (backtrack f, n) \<and>
      n \<le> 2 ^ length (vars f)" by blast
  then show ?thesis
    by (simp add: unassigned_assign)
qed

text \<open>
  The witness is the formula over two variables with all four two-literal clauses: the
  search forms each of the four complete assignments and \<open>f.unsat()\<close> rejects each,
  so the bound \<open>2 ^ n\<close> is reached.
\<close>

theorem backtrack_terminates_witness:
  "(\<exists>n. backtrack_fuel 3
          \<lparr>vars = [None, None],
           clauses = [[\<lparr>var = 1, sign = True\<rparr>, \<lparr>var = 2, sign = True\<rparr>],
                      [\<lparr>var = 1, sign = True\<rparr>, \<lparr>var = 2, sign = False\<rparr>],
                      [\<lparr>var = 1, sign = False\<rparr>, \<lparr>var = 2, sign = True\<rparr>],
                      [\<lparr>var = 1, sign = False\<rparr>, \<lparr>var = 2, sign = False\<rparr>]]\<rparr>
        = Some (backtrack
          \<lparr>vars = [None, None],
           clauses = [[\<lparr>var = 1, sign = True\<rparr>, \<lparr>var = 2, sign = True\<rparr>],
                      [\<lparr>var = 1, sign = True\<rparr>, \<lparr>var = 2, sign = False\<rparr>],
                      [\<lparr>var = 1, sign = False\<rparr>, \<lparr>var = 2, sign = True\<rparr>],
                      [\<lparr>var = 1, sign = False\<rparr>, \<lparr>var = 2, sign = False\<rparr>]]\<rparr>, n) \<and>
        n \<le> 4) \<and>
   unassigned
     \<lparr>vars = [Some True, None],
      clauses = [[\<lparr>var = 1, sign = True\<rparr>, \<lparr>var = 2, sign = True\<rparr>],
                 [\<lparr>var = 1, sign = True\<rparr>, \<lparr>var = 2, sign = False\<rparr>],
                 [\<lparr>var = 1, sign = False\<rparr>, \<lparr>var = 2, sign = True\<rparr>],
                 [\<lparr>var = 1, sign = False\<rparr>, \<lparr>var = 2, sign = False\<rparr>]]\<rparr>
     < unassigned
     \<lparr>vars = [None, None],
      clauses = [[\<lparr>var = 1, sign = True\<rparr>, \<lparr>var = 2, sign = True\<rparr>],
                 [\<lparr>var = 1, sign = True\<rparr>, \<lparr>var = 2, sign = False\<rparr>],
                 [\<lparr>var = 1, sign = False\<rparr>, \<lparr>var = 2, sign = True\<rparr>],
                 [\<lparr>var = 1, sign = False\<rparr>, \<lparr>var = 2, sign = False\<rparr>]]\<rparr> \<and>
   backtrack_fuel 3
     \<lparr>vars = [None, None],
      clauses = [[\<lparr>var = 1, sign = True\<rparr>, \<lparr>var = 2, sign = True\<rparr>],
                 [\<lparr>var = 1, sign = True\<rparr>, \<lparr>var = 2, sign = False\<rparr>],
                 [\<lparr>var = 1, sign = False\<rparr>, \<lparr>var = 2, sign = True\<rparr>],
                 [\<lparr>var = 1, sign = False\<rparr>, \<lparr>var = 2, sign = False\<rparr>]]\<rparr>
     = Some ((None,
              \<lparr>vars = [None, None],
               clauses = [[\<lparr>var = 1, sign = True\<rparr>, \<lparr>var = 2, sign = True\<rparr>],
                          [\<lparr>var = 1, sign = True\<rparr>, \<lparr>var = 2, sign = False\<rparr>],
                          [\<lparr>var = 1, sign = False\<rparr>, \<lparr>var = 2, sign = True\<rparr>],
                          [\<lparr>var = 1, sign = False\<rparr>, \<lparr>var = 2, sign = False\<rparr>]]\<rparr>), 4)"
proof -
  let ?cs = "[[\<lparr>var = 1, sign = True\<rparr>, \<lparr>var = 2, sign = True\<rparr>],
              [\<lparr>var = 1, sign = True\<rparr>, \<lparr>var = 2, sign = False\<rparr>],
              [\<lparr>var = 1, sign = False\<rparr>, \<lparr>var = 2, sign = True\<rparr>],
              [\<lparr>var = 1, sign = False\<rparr>, \<lparr>var = 2, sign = False\<rparr>]]"
  let ?F = "\<lparr>vars = [None, None], clauses = ?cs\<rparr>"
  have "first_unassigned (vars ?F) = Some 0" by simp
  with backtrack_terminates[of ?F]
  have less: "unassigned (?F\<lparr>vars := (vars ?F)[0 := Some True]\<rparr>) < unassigned ?F"
    by blast
  from backtrack_terminates[of ?F]
  have run: "\<exists>n. backtrack_fuel (Suc (length (vars ?F))) ?F = Some (backtrack ?F, n) \<and>
      n \<le> 2 ^ length (vars ?F)" by blast
  have four: "backtrack_fuel 3 ?F = Some ((None, ?F), 4)"
    by code_simp
  from run have "\<exists>n. backtrack_fuel 3 ?F = Some (backtrack ?F, n) \<and> n \<le> 4"
    by (simp add: numeral_3_eq_3 del: backtrack_fuel.simps)
  with less four show ?thesis
    by (simp del: backtrack_fuel.simps)
qed

text \<open>
  C9 as it stands bounds the depth by the number of variables. On the formula with two
  unassigned variables and no clauses two active calls are not enough: the outermost
  call, the call it makes after setting variable 1 and the call that one makes after
  setting variable 2 are active together, and only with three does the search return.
\<close>

theorem backtrack_depth_exceeds_variables:
  "backtrack_fuel 2 \<lparr>vars = [None, None], clauses = []\<rparr> = None \<and>
   backtrack_fuel 3 \<lparr>vars = [None, None], clauses = []\<rparr>
     = Some ((Some [Some True, Some True],
              \<lparr>vars = [Some True, Some True], clauses = []\<rparr>), 1)"
  by code_simp

section \<open>State after a failing search\<close>

text \<open>
  C4, as amended: take a formula whose literals all name variables of the formula and
  whose variables are all unassigned. If \<open>backtrack\<close> returns \<open>None\<close>, it leaves the
  formula as it found it, every variable unassigned. If \<open>dpll\<close> returns \<open>None\<close>, the
  formula has the same variables and every variable that holds a value on return is the
  variable of a unit clause of the formula: the values forced by the pre-pass are not
  taken back, all other variables are unassigned.
\<close>

theorem failure_restores:
  assumes "wf_Formula f" and "\<forall>v\<in>set (vars f). v = None"
  shows "(fst (backtrack f) = None \<longrightarrow> snd (backtrack f) = f) \<and>
         (\<forall>f'. dpll f = Inr (None, f') \<longrightarrow>
            length (vars f') = length (vars f) \<and>
            (\<forall>n. Var_value (vars f') n \<noteq> None \<longrightarrow>
               (\<exists>l. [l] \<in> set (clauses f) \<and> var l = n)))"
proof -
  have "length (vars f') = length (vars f) \<and>
        (\<forall>n. Var_value (vars f') n \<noteq> None \<longrightarrow> (\<exists>l. [l] \<in> set (clauses f) \<and> var l = n))"
    if d: "dpll f = Inr (None, f')" for f'
  proof -
    from d obtain p where p: "unit_propagation f = Inr p" "p = Failed f' \<or> p = Delegate f'"
      by (rule dpll_None)
    from unit_propagation_vars[OF p]
    have len: "length (vars f') = length (vars f)"
      and fr: "\<And>j. vars f' ! j \<noteq> vars f ! j \<Longrightarrow>
        \<exists>c\<in>set (clauses f). length c = 1 \<and>
           py_index (length (vars f)) (var (c ! 0) - 1) = Inr j"
      by auto
    have "\<exists>l. [l] \<in> set (clauses f) \<and> var l = n" if a: "Var_value (vars f') n \<noteq> None" for n
    proof -
      from a len have n: "1 \<le> n" "n \<le> int (length (vars f))"
        and v: "vars f' ! nat (n - 1) \<noteq> None"
        by (auto simp: Var_value_def split: if_splits)
      from n have "nat (n - 1) < length (vars f)" by simp
      with assms(2) have "vars f ! nat (n - 1) = None" by simp
      with v have "vars f' ! nat (n - 1) \<noteq> vars f ! nat (n - 1)" by simp
      from fr[OF this] obtain c where c: "c \<in> set (clauses f)" "length c = 1"
        "py_index (length (vars f)) (var (c ! 0) - 1) = Inr (nat (n - 1))" by auto
      from c(2) have cl: "c = [c ! 0]" by (cases c) auto
      with c(1) have "c ! 0 \<in> set c" by (metis list.set_intros(1))
      with assms(1) c(1) have "1 \<le> var (c ! 0)" "var (c ! 0) \<le> int (length (vars f))"
        by (auto simp: wf_Formula_def list_all_iff)
      from py_index_name[OF this] c(3) have "nat (var (c ! 0) - 1) = nat (n - 1)" by simp
      with \<open>1 \<le> var (c ! 0)\<close> n(1) have "var (c ! 0) = n" by simp
      with cl c(1) show ?thesis by metis
    qed
    with len show ?thesis by simp
  qed
  then show ?thesis
    by (simp add: backtrack_restore)
qed

theorem failure_restores_witness:
  "snd (backtrack \<lparr>vars = [None, None],
                   clauses = [[\<lparr>var = 1, sign = True\<rparr>], [\<lparr>var = 1, sign = False\<rparr>],
                              [\<lparr>var = 1, sign = True\<rparr>, \<lparr>var = 2, sign = True\<rparr>]]\<rparr>)
     = \<lparr>vars = [None, None],
        clauses = [[\<lparr>var = 1, sign = True\<rparr>], [\<lparr>var = 1, sign = False\<rparr>],
                   [\<lparr>var = 1, sign = True\<rparr>, \<lparr>var = 2, sign = True\<rparr>]]\<rparr> \<and>
   length [Some True, None :: bool option] = length [None :: bool option, None] \<and>
   Var_value [Some True, None] 2 = None"
proof -
  let ?cs = "[[\<lparr>var = 1, sign = True\<rparr>], [\<lparr>var = 1, sign = False\<rparr>],
              [\<lparr>var = 1, sign = True\<rparr>, \<lparr>var = 2, sign = True\<rparr>]]"
  let ?F = "\<lparr>vars = [None, None], clauses = ?cs\<rparr>"
  have w: "wf_Formula ?F"
    by (simp add: wf_Formula_def)
  have u: "\<forall>v\<in>set (vars ?F). v = None"
    by simp
  have b: "fst (backtrack ?F) = None"
    by code_simp
  have d: "dpll ?F = Inr (None, \<lparr>vars = [Some True, None], clauses = ?cs\<rparr>)"
    by code_simp
  from failure_restores[OF w u] b d show ?thesis
    by (simp add: Var_value_def)
qed

text \<open>
  C4 as it stands fails for \<open>dpll\<close>: on the clauses \<open>1 0\<close> and \<open>-1 0\<close> over one
  unassigned variable the scan sets the variable to true, meets the conflict and returns
  \<open>None\<close>, and the variable keeps the value true.
\<close>

theorem dpll_failure_keeps_forced_value:
  "dpll \<lparr>vars = [None],
         clauses = [[\<lparr>var = 1, sign = True\<rparr>], [\<lparr>var = 1, sign = False\<rparr>]]\<rparr>
   = Inr (None, \<lparr>vars = [Some True],
                 clauses = [[\<lparr>var = 1, sign = True\<rparr>], [\<lparr>var = 1, sign = False\<rparr>]]\<rparr>)"
  by code_simp

section \<open>Unit clauses of opposite signs\<close>

text \<open>
  C1 asks that \<open>backtrack\<close> and \<open>dpll\<close> agree on satisfiability. On the clauses \<open>-1 0\<close>
  and \<open>1 0\<close> over one unassigned variable they do not: \<open>backtrack\<close> returns \<open>None\<close>,
  \<open>dpll\<close> returns an assignment.
\<close>

theorem backtrack_dpll_disagree:
  "fst (backtrack \<lparr>vars = [None],
                   clauses = [[\<lparr>var = 1, sign = False\<rparr>], [\<lparr>var = 1, sign = True\<rparr>]]\<rparr>)
     = None \<and>
   dpll \<lparr>vars = [None],
         clauses = [[\<lparr>var = 1, sign = False\<rparr>], [\<lparr>var = 1, sign = True\<rparr>]]\<rparr>
     = Inr (Some [Some True], \<lparr>vars = [Some True], clauses = []\<rparr>)"
  by code_simp

text \<open>
  C2 asks that \<open>dpll\<close> returns \<open>None\<close> on a formula with the unit clauses \<open>{x}\<close> and
  \<open>{-x}\<close> in either order. With \<open>{-x}\<close> first the scan runs through: the variable holds
  \<open>False\<close> when \<open>{x}\<close> is scanned, \<open>False\<close> is falsy, and the test
  \<open>curr_val and (curr_val != lit.sign)\<close> does not report the conflict. With \<open>{x}\<close> first
  the conflict is reported.
\<close>

theorem dpll_conflict_order:
  "scan_units [[\<lparr>var = 1, sign = False\<rparr>], [\<lparr>var = 1, sign = True\<rparr>]] [None] []
     = Inr (Completed [Some True]
              [[\<lparr>var = 1, sign = False\<rparr>], [\<lparr>var = 1, sign = True\<rparr>]]) \<and>
   fst (projr (dpll \<lparr>vars = [None],
         clauses = [[\<lparr>var = 1, sign = False\<rparr>], [\<lparr>var = 1, sign = True\<rparr>]]\<rparr>))
     = Some [Some True] \<and>
   scan_units [[\<lparr>var = 1, sign = True\<rparr>], [\<lparr>var = 1, sign = False\<rparr>]] [None] []
     = Inr (Conflict [Some True])"
  by code_simp

text \<open>
  C8 asks that, when the pre-pass completes without a conflict, every variable of a
  removed unit clause holds that clause's sign. On the clauses \<open>-1 0\<close> and \<open>1 0\<close> the
  pre-pass completes and removes both clauses, and variable 1 holds \<open>True\<close>, not the
  sign of the removed clause \<open>-1 0\<close>.
\<close>

theorem unit_propagation_overwrites:
  "unit_propagation \<lparr>vars = [None],
         clauses = [[\<lparr>var = 1, sign = False\<rparr>], [\<lparr>var = 1, sign = True\<rparr>]]\<rparr>
     = Inr (Delegate \<lparr>vars = [Some True], clauses = []\<rparr>) \<and>
   Var_value [Some True] (var \<lparr>var = 1, sign = False\<rparr>)
     \<noteq> Some (sign \<lparr>var = 1, sign = False\<rparr>)"
  by code_simp

end
